theory Spec2Isabelle
  imports Main "HOL-Library.Word"
begin

section \<open>Strings and messages\<close>

text \<open>
  A JavaScript string is a sequence of UTF-16 code units: \<open>length\<close> counts code units and
  \<open>slice\<close> cuts between them. ASCII literals are written through \<open>js\<close>.
\<close>

type_synonym jsstring = "16 word list"

definition js :: "string \<Rightarrow> jsstring" where
  "js s = map of_char s"

text \<open>
  The message types of the model library, as far as the loop builds or stores them. The
  argument payload of a tool call and the parameter schema of a tool are opaque to the
  loop and kept in serialised form.
\<close>

datatype content = TextContent jsstring | ImageContent jsstring jsstring

record toolCall =
  tc_id :: jsstring
  tc_name :: jsstring
  tc_arguments :: jsstring

datatype assistantPart = AText jsstring | AThinking jsstring | AToolCall toolCall

record assistantMessage =
  am_content :: "assistantPart list"
  am_model :: jsstring
  am_stopReason :: jsstring
  am_timestamp :: int

record toolResultMessage =
  toolCallId :: jsstring
  toolName :: jsstring
  tr_content :: "content list"
  isError :: bool
  tr_timestamp :: int

datatype message =
    User "content list" int
  | Assistant assistantMessage
  | ToolResult toolResultMessage

text \<open>The events of the provider's stream; the loop looks at two kinds only.\<close>

datatype assistantMessageEvent =
    text_delta jsstring
  | toolcall_end toolCall
  | other_event

record tool =
  t_name :: jsstring
  t_description :: jsstring
  t_parameters :: jsstring

section \<open>The collaborators of the turn loop\<close>

text \<open>
  Everything outside the loop acts on a world \<open>'w\<close> that the loop threads through its
  calls. A thrown value is an \<open>Error\<close> object, represented by its message (\<open>Inl\<close>).
  A tool is handed the call id and the validated arguments, nothing else, and what it
  returns carries its content parts, as its type says. Log lines are left out.
\<close>

record 'w agentTool =
  name :: jsstring
  description :: jsstring
  parameters :: jsstring
  execute :: "jsstring \<Rightarrow> jsstring \<Rightarrow> 'w \<Rightarrow> (jsstring + content list) \<times> 'w"

text \<open>
  \<open>stream\<close> is the model client: from the system prompt, the current contents of the
  context's message array and the tool definitions it yields the events of one
  generation (a generation that completes has finitely many) and the finalized
  assistant message, or throws. \<open>validateToolCall\<close> is the
  library's schema check: the validated arguments, or a throw. \<open>Date_now\<close> reads the
  clock. \<open>codingTools\<close> are the built-in tools.
\<close>

record 'w collaborators =
  stream :: "jsstring \<Rightarrow> message list \<Rightarrow> tool list \<Rightarrow> 'w
               \<Rightarrow> (jsstring + assistantMessageEvent list \<times> assistantMessage) \<times> 'w"
  validateToolCall :: "tool list \<Rightarrow> toolCall \<Rightarrow> jsstring + jsstring"
  Date_now :: "'w \<Rightarrow> int \<times> 'w"
  codingTools :: "'w agentTool list"

section \<open>The store of message arrays\<close>

text \<open>
  Arrays are mutable and shared by reference, so they live in a store: an address is an
  index, \<open>[...xs]\<close> allocates a new array with the elements of \<open>xs\<close>, and \<open>push\<close> appends
  in place.
\<close>

type_synonym addr = nat
type_synonym store = "message list list"

definition spread :: "addr \<Rightarrow> store \<Rightarrow> addr \<times> store" where
  "spread a h = (length h, h @ [h ! a])"

definition push :: "addr \<Rightarrow> message \<Rightarrow> store \<Rightarrow> store" where
  "push a m h = h[a := h ! a @ [m]]"

record 'w loop_state =
  heap :: store
  world :: 'w
  turnCount :: nat

section \<open>runAgent\<close>

text \<open>The \<open>for await\<close> loop over the provider's events, with its two accumulators.\<close>

fun consume :: "assistantMessageEvent list \<Rightarrow> jsstring \<times> toolCall list \<Rightarrow> jsstring \<times> toolCall list" where
  "consume [] acc = acc"
| "consume (text_delta d # es) (text, toolCalls) = consume es (text @ d, toolCalls)"
| "consume (toolcall_end tc # es) (text, toolCalls) = consume es (text, toolCalls @ [tc])"
| "consume (other_event # es) acc = consume es acc"

text \<open>The three tool results the loop builds.\<close>

definition unknownToolResult :: "toolCall \<Rightarrow> int \<Rightarrow> message" where
  "unknownToolResult tc now = ToolResult \<lparr>toolCallId = tc_id tc, toolName = tc_name tc,
     tr_content = [TextContent (js ''Unknown tool: '' @ tc_name tc)], isError = True,
     tr_timestamp = now\<rparr>"

definition successToolResult :: "toolCall \<Rightarrow> content list \<Rightarrow> int \<Rightarrow> message" where
  "successToolResult tc c now = ToolResult \<lparr>toolCallId = tc_id tc, toolName = tc_name tc,
     tr_content = c, isError = False, tr_timestamp = now\<rparr>"

definition errorToolResult :: "toolCall \<Rightarrow> jsstring \<Rightarrow> int \<Rightarrow> message" where
  "errorToolResult tc msg now = ToolResult \<lparr>toolCallId = tc_id tc, toolName = tc_name tc,
     tr_content = [TextContent (js ''Error: '' @ msg)], isError = True,
     tr_timestamp = now\<rparr>"

text \<open>
  The body of \<open>for (const tc of toolCalls)\<close>: the lookup with its \<open>continue\<close>, then the
  \<open>try\<close> (validate, execute, push) and its \<open>catch\<close> (push an error result).
\<close>

definition executeToolCall ::
  "'w collaborators \<Rightarrow> tool list \<Rightarrow> (jsstring \<rightharpoonup> 'w agentTool) \<Rightarrow> addr \<Rightarrow> toolCall
     \<Rightarrow> store \<times> 'w \<Rightarrow> store \<times> 'w" where
  "executeToolCall env toolDefs toolHandlers ctx tc hw =
     (case hw of (h, w) \<Rightarrow>
       (case toolHandlers (tc_name tc) of
          None \<Rightarrow>
            (case Date_now env w of (now, w1) \<Rightarrow> (push ctx (unknownToolResult tc now) h, w1))
        | Some handler \<Rightarrow>
            (case validateToolCall env toolDefs tc of
               Inl msg \<Rightarrow>
                 (case Date_now env w of (now, w1) \<Rightarrow> (push ctx (errorToolResult tc msg now) h, w1))
             | Inr validated \<Rightarrow>
                 (case execute handler (tc_id tc) validated w of
                    (Inl msg, w1) \<Rightarrow>
                      (case Date_now env w1 of (now, w2) \<Rightarrow>
                         (push ctx (errorToolResult tc msg now) h, w2))
                  | (Inr c, w1) \<Rightarrow>
                      (case Date_now env w1 of (now, w2) \<Rightarrow>
                         (push ctx (successToolResult tc c now) h, w2))))))"

fun executeToolCalls ::
  "'w collaborators \<Rightarrow> tool list \<Rightarrow> (jsstring \<rightharpoonup> 'w agentTool) \<Rightarrow> addr \<Rightarrow> toolCall list
     \<Rightarrow> store \<times> 'w \<Rightarrow> store \<times> 'w" where
  "executeToolCalls env toolDefs toolHandlers ctx [] hw = hw"
| "executeToolCalls env toolDefs toolHandlers ctx (tc # tcs) hw =
     executeToolCalls env toolDefs toolHandlers ctx tcs
       (executeToolCall env toolDefs toolHandlers ctx tc hw)"

text \<open>
  One pass through the body of \<open>while (true)\<close>: it returns the text, goes round again, or
  is left by the exception of a failed model call.
\<close>

datatype 'w turn_outcome =
    Returned jsstring "'w loop_state"
  | Continue "'w loop_state"
  | Threw jsstring "'w loop_state"

definition turn ::
  "'w collaborators \<Rightarrow> jsstring \<Rightarrow> tool list \<Rightarrow> (jsstring \<rightharpoonup> 'w agentTool) \<Rightarrow> addr
     \<Rightarrow> 'w loop_state \<Rightarrow> 'w turn_outcome" where
  "turn env systemPrompt toolDefs toolHandlers ctx s =
     (let n = turnCount s + 1 in
      case stream env systemPrompt (heap s ! ctx) toolDefs (world s) of
        (Inl err, w1) \<Rightarrow> Threw err \<lparr>heap = heap s, world = w1, turnCount = n\<rparr>
      | (Inr (events, assistantMsg), w1) \<Rightarrow>
          (case consume events ([], []) of (text, toolCalls) \<Rightarrow>
            (let h1 = push ctx (Assistant assistantMsg) (heap s) in
             if length toolCalls = 0
             then Returned text \<lparr>heap = h1, world = w1, turnCount = n\<rparr>
             else (case executeToolCalls env toolDefs toolHandlers ctx toolCalls (h1, w1) of
                     (h2, w2) \<Rightarrow> Continue \<lparr>heap = h2, world = w2, turnCount = n\<rparr>))))"

text \<open>
  The loop has no exit but the \<open>return\<close> and the exception, so it is a partial function:
  \<open>None\<close> is a run that never ends.
\<close>

partial_function (option) runAgent_loop ::
  "'w collaborators \<Rightarrow> jsstring \<Rightarrow> tool list \<Rightarrow> (jsstring \<rightharpoonup> 'w agentTool) \<Rightarrow> addr
     \<Rightarrow> 'w loop_state \<Rightarrow> ((jsstring + jsstring) \<times> 'w loop_state) option" where
  "runAgent_loop env systemPrompt toolDefs toolHandlers ctx s =
     (case turn env systemPrompt toolDefs toolHandlers ctx s of
        Returned text s' \<Rightarrow> Some (Inr text, s')
      | Continue s' \<Rightarrow> runAgent_loop env systemPrompt toolDefs toolHandlers ctx s'
      | Threw err s' \<Rightarrow> Some (Inl err, s'))"

declare runAgent_loop.simps [code]

text \<open>
  \<open>runAgent\<close>: the merged tools, their definitions, the name-keyed handler table (a later
  tool of the same name replaces an earlier one), the copy of the caller's array, and the
  loop. The caller passes the address of its array.
\<close>

definition toolDef :: "'w agentTool \<Rightarrow> tool" where
  "toolDef t = \<lparr>t_name = name t, t_description = description t, t_parameters = parameters t\<rparr>"

definition mkToolHandlers :: "'w agentTool list \<Rightarrow> (jsstring \<rightharpoonup> 'w agentTool)" where
  "mkToolHandlers allTools = fold (\<lambda>t m. m(name t \<mapsto> t)) allTools Map.empty"

definition runAgent ::
  "'w collaborators \<Rightarrow> addr \<Rightarrow> jsstring \<Rightarrow> 'w agentTool list \<Rightarrow> store \<Rightarrow> 'w
     \<Rightarrow> ((jsstring + jsstring) \<times> 'w loop_state) option" where
  "runAgent env messages systemPrompt customTools h w =
     (let allTools = codingTools env @ customTools;
          toolDefs = map toolDef allTools;
          toolHandlers = mkToolHandlers allTools
      in case spread messages h of (ctx, h0) \<Rightarrow>
           runAgent_loop env systemPrompt toolDefs toolHandlers ctx
             \<lparr>heap = h0, world = w, turnCount = 0\<rparr>)"

section \<open>Notions the statements about the loop use\<close>

text \<open>
  The text a generation streamed (its deltas, joined) and the tool calls it issued (its
  completed tool-call requests, in arrival order).
\<close>

fun deltaText :: "assistantMessageEvent list \<Rightarrow> jsstring" where
  "deltaText [] = []"
| "deltaText (text_delta d # es) = d @ deltaText es"
| "deltaText (e # es) = deltaText es"

fun issuedToolCalls :: "assistantMessageEvent list \<Rightarrow> toolCall list" where
  "issuedToolCalls [] = []"
| "issuedToolCalls (toolcall_end tc # es) = tc # issuedToolCalls es"
| "issuedToolCalls (e # es) = issuedToolCalls es"

text \<open>A message answers a tool call when it is a tool result carrying the call's id and name.\<close>

fun answers :: "toolCall \<Rightarrow> message \<Rightarrow> bool" where
  "answers tc (ToolResult r) = (toolCallId r = tc_id tc \<and> toolName r = tc_name tc)"
| "answers tc m = False"

fun flagged :: "message \<Rightarrow> bool" where
  "flagged (ToolResult r) = isError r"
| "flagged m = False"

text \<open>The first \<open>n\<close> passes through the loop body, stopping early where the loop stops.\<close>

fun iterate_turns ::
  "nat \<Rightarrow> 'w collaborators \<Rightarrow> jsstring \<Rightarrow> tool list \<Rightarrow> (jsstring \<rightharpoonup> 'w agentTool) \<Rightarrow> addr
     \<Rightarrow> 'w loop_state \<Rightarrow> 'w turn_outcome" where
  "iterate_turns 0 env sp defs hs ctx s = Continue s"
| "iterate_turns (Suc n) env sp defs hs ctx s =
     (case turn env sp defs hs ctx s of
        Continue s' \<Rightarrow> iterate_turns n env sp defs hs ctx s'
      | Returned t s' \<Rightarrow> Returned t s'
      | Threw e s' \<Rightarrow> Threw e s')"

text \<open>The frame of a run: the store keeps its size, every array but the working one keeps
  its contents, and the working array only grows at its end.\<close>

definition framed :: "addr \<Rightarrow> 'w loop_state \<Rightarrow> 'w loop_state \<Rightarrow> bool" where
  "framed ctx s s' \<longleftrightarrow> length (heap s') = length (heap s) \<and>
     (\<forall>a. a \<noteq> ctx \<longrightarrow> heap s' ! a = heap s ! a) \<and> (\<exists>added. heap s' ! ctx = heap s ! ctx @ added)"

section \<open>Example collaborators\<close>

text \<open>
  A model client that answers the first call with some text and two tool calls (one of
  them to a tool nobody registered) and every later call with text only; a client that
  asks for a tool on every call; a search tool; a store holding the caller's one array.
\<close>

definition demoCall :: toolCall where
  "demoCall = \<lparr>tc_id = js ''call_1'', tc_name = js ''web_search'', tc_arguments = js ''{}''\<rparr>"

definition strayCall :: toolCall where
  "strayCall = \<lparr>tc_id = js ''call_2'', tc_name = js ''teleport'', tc_arguments = js ''{}''\<rparr>"

definition demoAnswer :: assistantMessage where
  "demoAnswer = \<lparr>am_content = [], am_model = js ''m'', am_stopReason = js ''stop'', am_timestamp = 7\<rparr>"

definition demoTool :: "nat agentTool" where
  "demoTool = \<lparr>name = js ''web_search'', description = [], parameters = [],
     execute = (\<lambda>i a w. (Inr [TextContent (js ''found'')], w))\<rparr>"

definition demoEnv :: "nat collaborators" where
  "demoEnv = \<lparr>stream = (\<lambda>sp msgs defs w.
       if w = 0
       then (Inr ([text_delta (js ''Let me look. ''), toolcall_end demoCall, toolcall_end strayCall],
                  demoAnswer), Suc w)
       else (Inr ([text_delta (js ''It is ''), other_event, text_delta (js ''four.'')], demoAnswer), Suc w)),
     validateToolCall = (\<lambda>defs tc. Inr (tc_arguments tc)),
     Date_now = (\<lambda>w. (1700000000000, w)),
     codingTools = []\<rparr>"

definition chattyEnv :: "unit collaborators" where
  "chattyEnv = \<lparr>stream = (\<lambda>sp msgs defs w. (Inr ([toolcall_end demoCall], demoAnswer), w)),
     validateToolCall = (\<lambda>defs tc. Inr (tc_arguments tc)),
     Date_now = (\<lambda>w. (1700000000000, w)),
     codingTools = []\<rparr>"

definition demoStore :: store where
  "demoStore = [[User [TextContent (js ''what is 2+2'')] 5]]"


definition finalEvents :: "assistantMessageEvent list" where
  "finalEvents = [text_delta (js ''It is ''), other_event, text_delta (js ''four.'')]"

definition demoState :: "nat loop_state" where
  "demoState = \<lparr>heap = demoStore, world = 0, turnCount = 0\<rparr>"

definition laterState :: "nat loop_state" where
  "laterState = \<lparr>heap = demoStore, world = 1, turnCount = 1\<rparr>"

definition chattyState :: "unit loop_state" where
  "chattyState = \<lparr>heap = demoStore, world = (), turnCount = 0\<rparr>"

section \<open>The streaming renderer of handleMessage\<close>

text \<open>
  The chat transport acts on a world of its own. A call either goes through (\<open>None\<close>) or
  throws an \<open>Error\<close> with a message. Message and chat ids are left out: every edit and the
  deletion address the one placeholder message. The calls made are recorded with their
  outcomes, and so are the warnings written to the log.
\<close>

record 'w transport =
  editMessageText :: "jsstring \<Rightarrow> 'w \<Rightarrow> jsstring option \<times> 'w"
  deleteMessage :: "'w \<Rightarrow> jsstring option \<times> 'w"
  reply :: "jsstring \<Rightarrow> 'w \<Rightarrow> jsstring option \<times> 'w"
  clock :: "'w \<Rightarrow> int \<times> 'w"

datatype call =
    EditMessageText jsstring "jsstring option"
  | DeleteMessage "jsstring option"
  | Reply jsstring

record 'w render_state =
  lastEditTime :: int
  lastEditedText :: jsstring
  fullText :: jsstring
  currentToolIndicator :: jsstring
  calls :: "call list"
  warnings :: "jsstring list"
  tworld :: 'w

definition THROTTLE_MS :: int where
  "THROTTLE_MS = 500"

definition MIN_CHARS_CHANGE :: int where
  "MIN_CHARS_CHANGE = 20"

text \<open>\<open>String.prototype.slice\<close> and \<open>String.prototype.includes\<close>.\<close>

definition slice :: "jsstring \<Rightarrow> int \<Rightarrow> int \<Rightarrow> jsstring" where
  "slice s start fin =
     (let len = int (length s);
          lo = (if start < 0 then max (len + start) 0 else min start len);
          hi = (if fin < 0 then max (len + fin) 0 else min fin len)
      in take (nat (hi - lo)) (drop (nat lo) s))"

definition sliceFrom :: "jsstring \<Rightarrow> int \<Rightarrow> jsstring" where
  "sliceFrom s start = slice s start (int (length s))"

fun str_includes :: "jsstring \<Rightarrow> jsstring \<Rightarrow> bool" where
  "str_includes [] p = (p = [])"
| "str_includes (c # cs) p = (take (length p) (c # cs) = p \<or> str_includes cs p)"

text \<open>The text an edit sends for \<open>newText\<close>: the trailing window when it is too long, and
  the placeholder dots when it is empty.\<close>

definition displayText :: "jsstring \<Rightarrow> jsstring" where
  "displayText newText =
     (if length newText > 4000
      then sliceFrom newText (- 4000) @ [0x0A, 0x0A] @ js ''[...truncated]''
      else newText)"

definition shownText :: "jsstring \<Rightarrow> jsstring" where
  "shownText newText = (if displayText newText = [] then js ''...'' else displayText newText)"

text \<open>
  \<open>editMessage\<close>: the gate, the \<open>try\<close> (the transport call, then the two assignments) and
  the \<open>catch\<close> (a warning unless the message says "not modified").
\<close>

definition tryEdit ::
  "'w transport \<Rightarrow> jsstring \<Rightarrow> int \<Rightarrow> 'w \<Rightarrow> 'w render_state
     \<Rightarrow> (jsstring \<times> 'w render_state) + 'w render_state" where
  "tryEdit tr newText now w s =
     (case editMessageText tr (shownText newText) w of
        (Some msg, w') \<Rightarrow>
          Inl (msg, s\<lparr>calls := calls s @ [EditMessageText (shownText newText) (Some msg)],
                       tworld := w'\<rparr>)
      | (None, w') \<Rightarrow>
          Inr (s\<lparr>lastEditTime := now, lastEditedText := newText,
                  calls := calls s @ [EditMessageText (shownText newText) None],
                  tworld := w'\<rparr>))"

definition editMessage ::
  "'w transport \<Rightarrow> jsstring \<Rightarrow> bool \<Rightarrow> 'w render_state \<Rightarrow> jsstring + 'w render_state" where
  "editMessage tr newText force s =
     (case clock tr (tworld s) of (now, w) \<Rightarrow>
       (let textChanged = (newText \<noteq> lastEditedText s);
            significantChange =
              (int (length newText) - int (length (lastEditedText s)) \<ge> MIN_CHARS_CHANGE);
            throttleOk = (now - lastEditTime s \<ge> THROTTLE_MS)
        in if textChanged \<and> (force \<or> (throttleOk \<and> significantChange))
           then (case tryEdit tr newText now w s of
                   Inr s' \<Rightarrow> Inr s'
                 | Inl (msg, s') \<Rightarrow>
                     if \<not> str_includes msg (js ''not modified'')
                     then Inr (s'\<lparr>warnings := warnings s' @ [js ''Edit failed: '' @ msg]\<rparr>)
                     else Inr s')
           else Inr (s\<lparr>tworld := w\<rparr>)))"

text \<open>
  The events of the streaming agent, and the table of tool indicators; a tool name is
  looked up among the keys the table itself lists, and a name it does not list gets the
  entry of \<open>default\<close>.
\<close>

datatype streamEvent =
    TextDelta jsstring
  | ToolStart jsstring
  | ToolEnd
  | Done jsstring

definition toolEmojis :: "(jsstring \<times> jsstring) list" where
  "toolEmojis =
     [(js ''web_search'', [0xD83D, 0xDD0D]),
      (js ''fetch_url'', [0xD83C, 0xDF10]),
      (js ''bash'', [0x2699, 0xFE0F]),
      (js ''read'', [0xD83D, 0xDCD6]),
      (js ''write'', [0x270F, 0xFE0F]),
      (js ''edit'', [0x270F, 0xFE0F]),
      (js ''save_memory'', [0xD83D, 0xDCBE]),
      (js ''recall_memories'', [0xD83E, 0xDDE0]),
      (js ''create_cron'', [0x23F0]),
      (js ''default'', [0xD83D, 0xDD27])]"

definition toolIndicator :: "jsstring \<Rightarrow> jsstring" where
  "toolIndicator nm =
     (let emoji = (case map_of toolEmojis nm of
                     Some e \<Rightarrow> e
                   | None \<Rightarrow> [0xD83D, 0xDD27])
      in [0x0A, 0x0A] @ emoji @ js '' _'' @ nm @ js ''_...'')"

text \<open>The \<open>switch\<close> on the event, and the \<open>for await\<close> loop around it.\<close>

definition handleEvent ::
  "'w transport \<Rightarrow> streamEvent \<Rightarrow> 'w render_state \<Rightarrow> jsstring + 'w render_state" where
  "handleEvent tr ev s =
     (case ev of
        TextDelta accumulated \<Rightarrow>
          (let s1 = s\<lparr>fullText := accumulated\<rparr>
           in editMessage tr (fullText s1 @ currentToolIndicator s1) False s1)
      | ToolStart nm \<Rightarrow>
          (let s1 = s\<lparr>currentToolIndicator := toolIndicator nm\<rparr>
           in editMessage tr (fullText s1 @ currentToolIndicator s1) True s1)
      | ToolEnd \<Rightarrow>
          (let s1 = s\<lparr>currentToolIndicator := []\<rparr>
           in if fullText s1 \<noteq> [] then editMessage tr (fullText s1) True s1 else Inr s1)
      | Done ft \<Rightarrow> Inr (s\<lparr>fullText := ft\<rparr>))"

fun processEvents ::
  "'w transport \<Rightarrow> streamEvent list \<Rightarrow> 'w render_state \<Rightarrow> jsstring + 'w render_state" where
  "processEvents tr [] s = Inr s"
| "processEvents tr (ev # evs) s =
     (case handleEvent tr ev s of
        Inl err \<Rightarrow> Inl err
      | Inr s' \<Rightarrow> processEvents tr evs s')"

text \<open>
  Overflow delivery. The chunk loop \<open>for (i = 0; i < text.length; i += 4096)\<close> is the same
  in both modes; a \<open>reply\<close> that throws leaves it.
\<close>

function sendChunks ::
  "'w transport \<Rightarrow> jsstring \<Rightarrow> nat \<Rightarrow> call list \<times> 'w \<Rightarrow> jsstring + call list \<times> 'w" where
  "sendChunks tr txt i cw =
     (if i < length txt
      then (case reply tr (slice txt (int i) (int i + 4096)) (snd cw) of
              (Some err, w') \<Rightarrow> Inl err
            | (None, w') \<Rightarrow>
                sendChunks tr txt (i + 4096)
                  (fst cw @ [Reply (slice txt (int i) (int i + 4096))], w'))
      else Inr cw)"
  by pat_completeness auto
termination
  by (relation "measure (\<lambda>(tr, txt, i, cw). length txt - i)") auto

declare sendChunks.simps [simp del]

text \<open>The \<open>try\<close> around \<open>deleteMessage\<close>, whose \<open>catch\<close> is empty.\<close>

definition discardPlaceholder :: "'w transport \<Rightarrow> 'w render_state \<Rightarrow> jsstring + 'w render_state" where
  "discardPlaceholder tr s =
     (case deleteMessage tr (tworld s) of
        (r, w') \<Rightarrow> Inr (s\<lparr>calls := calls s @ [DeleteMessage r], tworld := w'\<rparr>))"

definition overflowDelivery :: "'w transport \<Rightarrow> 'w render_state \<Rightarrow> jsstring + 'w render_state" where
  "overflowDelivery tr s =
     (if length (fullText s) > 4096
      then (case discardPlaceholder tr s of
              Inl err \<Rightarrow> Inl err
            | Inr s1 \<Rightarrow>
                (case sendChunks tr (fullText s1) 0 (calls s1, tworld s1) of
                   Inl err \<Rightarrow> Inl err
                 | Inr (cs, w') \<Rightarrow> Inr (s1\<lparr>calls := cs, tworld := w'\<rparr>)))
      else Inr s)"

text \<open>
  The streaming branch: the placeholder, the event loop over the events the streaming
  agent yields, the final forced edit, the overflow delivery. It ends with the response.
\<close>

definition initialRenderState :: "'w \<Rightarrow> 'w render_state" where
  "initialRenderState w =
     \<lparr>lastEditTime = 0, lastEditedText = [], fullText = [], currentToolIndicator = [],
      calls = [Reply (js ''...'')], warnings = [], tworld = w\<rparr>"

definition streamingMode ::
  "'w transport \<Rightarrow> streamEvent list \<Rightarrow> 'w \<Rightarrow> jsstring + jsstring \<times> 'w render_state" where
  "streamingMode tr events w =
     (case reply tr (js ''...'') w of
        (Some err, w0) \<Rightarrow> Inl err
      | (None, w0) \<Rightarrow>
          (case processEvents tr events (initialRenderState w0) of
             Inl err \<Rightarrow> Inl err
           | Inr s1 \<Rightarrow>
               (case editMessage tr (fullText s1) True s1 of
                  Inl err \<Rightarrow> Inl err
                | Inr s2 \<Rightarrow>
                    (case overflowDelivery tr s2 of
                       Inl err \<Rightarrow> Inl err
                     | Inr s3 \<Rightarrow> Inr (fullText s3, s3)))))"


text \<open>
  What the chat viewAfter in the placeholder message: the text of the last edit that went
  through, and the placeholder's own dots before any.
\<close>

definition viewAfter :: "jsstring \<Rightarrow> call \<Rightarrow> jsstring" where
  "viewAfter v c = (case c of EditMessageText t None \<Rightarrow> t | _ \<Rightarrow> v)"

definition rendered :: "call list \<Rightarrow> jsstring" where
  "rendered cs = foldl viewAfter (js ''...'') cs"

section \<open>Notions the statements about the renderer use\<close>

text \<open>
  The condition under which \<open>editMessage\<close> goes to the transport, and the agreement
  between the renderer's record of the last edit and what the chat shows.
\<close>

definition consistent :: "'w render_state \<Rightarrow> bool" where
  "consistent s \<longleftrightarrow> rendered (calls s) = shownText (lastEditedText s)"

definition gateOpen :: "'w transport \<Rightarrow> jsstring \<Rightarrow> bool \<Rightarrow> 'w render_state \<Rightarrow> bool" where
  "gateOpen tr newText force s \<longleftrightarrow>
     newText \<noteq> lastEditedText s \<and>
     (force \<or> (fst (clock tr (tworld s)) - lastEditTime s \<ge> THROTTLE_MS \<and>
               int (length newText) - int (length (lastEditedText s)) \<ge> MIN_CHARS_CHANGE))"

section \<open>Example transports and renderer states\<close>

text \<open>
  A transport that accepts everything, one that refuses every edit and every deletion,
  one that answers every edit with "message is not modified"; their clocks stand at
  1000 ms. The renderer states are those the examples pass through.
\<close>

definition steadyTransport :: "unit transport" where
  "steadyTransport = \<lparr>editMessageText = (\<lambda>t w. (None, w)), deleteMessage = (\<lambda>w. (None, w)),
     reply = (\<lambda>t w. (None, w)), clock = (\<lambda>w. (1000, w))\<rparr>"

definition flakyTransport :: "unit transport" where
  "flakyTransport = \<lparr>editMessageText = (\<lambda>t w. (Some (js ''Too Many Requests''), w)),
     deleteMessage = (\<lambda>w. (Some (js ''message to delete not found''), w)),
     reply = (\<lambda>t w. (None, w)), clock = (\<lambda>w. (1000, w))\<rparr>"

definition longText :: jsstring where
  "longText = replicate 5000 0x61"

definition longState :: "unit render_state" where
  "longState = \<lparr>lastEditTime = 1000, lastEditedText = longText, fullText = longText,
     currentToolIndicator = [], calls = [Reply (js ''...'')], warnings = [], tworld = ()\<rparr>"

definition flakyAfterEdit :: "unit render_state" where
  "flakyAfterEdit = \<lparr>lastEditTime = 0, lastEditedText = [], fullText = [],
     currentToolIndicator = [],
     calls = [Reply (js ''...''), EditMessageText (js ''hi'') (Some (js ''Too Many Requests''))],
     warnings = [js ''Edit failed: '' @ js ''Too Many Requests''], tworld = ()\<rparr>"





definition flakyAfterTwo :: "unit render_state" where
  "flakyAfterTwo = \<lparr>lastEditTime = 0, lastEditedText = [], fullText = [],
     currentToolIndicator = [],
     calls = [Reply (js ''...''), EditMessageText (js ''hi'') (Some (js ''Too Many Requests'')),
              EditMessageText (js ''hi'') (Some (js ''Too Many Requests''))],
     warnings = [js ''Edit failed: '' @ js ''Too Many Requests'',
                 js ''Edit failed: '' @ js ''Too Many Requests''], tworld = ()\<rparr>"

definition unchangedTransport :: "unit transport" where
  "unchangedTransport = \<lparr>
     editMessageText = (\<lambda>t w. (Some (js ''Bad Request: message is not modified''), w)),
     deleteMessage = (\<lambda>w. (None, w)), reply = (\<lambda>t w. (None, w)), clock = (\<lambda>w. (1000, w))\<rparr>"

definition saidHi :: "unit render_state" where
  "saidHi = \<lparr>lastEditTime = 1000, lastEditedText = js ''hi'', fullText = [],
     currentToolIndicator = [], calls = [Reply (js ''...''), EditMessageText (js ''hi'') None],
     warnings = [], tworld = ()\<rparr>"

definition dotsRefused :: "unit render_state" where
  "dotsRefused = \<lparr>lastEditTime = 0, lastEditedText = [], fullText = [],
     currentToolIndicator = [],
     calls = [Reply (js ''...''),
              EditMessageText (js ''...'') (Some (js ''Bad Request: message is not modified''))],
     warnings = [], tworld = ()\<rparr>"

definition t25 :: jsstring where
  "t25 = js ''The answer to 2+2 is four''"

definition shownAll :: "unit render_state" where
  "shownAll = \<lparr>lastEditTime = 1000, lastEditedText = t25, fullText = t25,
     currentToolIndicator = [], calls = [Reply (js ''...''), EditMessageText t25 None],
     warnings = [], tworld = ()\<rparr>"

definition t30 :: jsstring where
  "t30 = js ''The answer to 2+2 is four, and''"

definition t36 :: jsstring where
  "t36 = js ''The answer to 2+2 is four, and 3+3 6''"

definition heldBack :: "unit render_state" where
  "heldBack = \<lparr>lastEditTime = 1000, lastEditedText = t25, fullText = t36,
     currentToolIndicator = [], calls = [Reply (js ''...''), EditMessageText t25 None],
     warnings = [], tworld = ()\<rparr>"


section \<open>Properties of the turn loop\<close>

text \<open>The accumulators of the event loop hold the joined deltas and the issued calls.\<close>

lemma consume_acc:
  "consume es (t0, tcs) = (t0 @ deltaText es, tcs @ issuedToolCalls es)"
proof (induction es arbitrary: t0 tcs)
  case Nil
  then show ?case by simp
next
  case (Cons e es)
  then show ?case by (cases e) simp_all
qed

lemma consume_start: "consume es ([], []) = (deltaText es, issuedToolCalls es)"
  using consume_acc [of es "[]" "[]"] by simp

lemma push_nth: "ctx < length h \<Longrightarrow> push ctx m h ! ctx = h ! ctx @ [m]"
  by (simp add: push_def)

lemma push_other: "a \<noteq> ctx \<Longrightarrow> push ctx m h ! a = h ! a"
  by (simp add: push_def)

lemma push_length: "length (push ctx m h) = length h"
  by (simp add: push_def)

lemma executeToolCall_one:
  "\<exists>m w'. executeToolCall env defs hs ctx tc (h, w) = (push ctx m h, w') \<and> answers tc m \<and>
     (flagged m \<longleftrightarrow>
        (case hs (tc_name tc) of None \<Rightarrow> True
         | Some handler \<Rightarrow>
            (case validateToolCall env defs tc of Inl msg \<Rightarrow> True
             | Inr validated \<Rightarrow> isl (fst (execute handler (tc_id tc) validated w)))))"
  by (auto simp: executeToolCall_def unknownToolResult_def errorToolResult_def successToolResult_def
      split: option.splits sum.splits prod.splits)

lemma executeToolCalls_results:
  "ctx < length h \<Longrightarrow>
   \<exists>rs h' w'. executeToolCalls env defs hs ctx tcs (h, w) = (h', w') \<and>
      length h' = length h \<and> h' ! ctx = h ! ctx @ rs \<and> (\<forall>a. a \<noteq> ctx \<longrightarrow> h' ! a = h ! a) \<and>
      list_all2 answers tcs rs \<and>
      list_all2 (\<lambda>tc m. hs (tc_name tc) = None \<or> isl (validateToolCall env defs tc) \<longrightarrow> flagged m) tcs rs"
proof (induction tcs arbitrary: h w)
  case Nil
  then show ?case by simp
next
  case (Cons tc tcs)
  obtain m w1 where 1: "executeToolCall env defs hs ctx tc (h, w) = (push ctx m h, w1)" "answers tc m"
    and fl: "flagged m \<longleftrightarrow>
        (case hs (tc_name tc) of None \<Rightarrow> True
         | Some handler \<Rightarrow>
            (case validateToolCall env defs tc of Inl msg \<Rightarrow> True
             | Inr validated \<Rightarrow> isl (fst (execute handler (tc_id tc) validated w))))"
    using executeToolCall_one[of env defs hs ctx tc h w] by (elim exE conjE) blast
  have len: "ctx < length (push ctx m h)" using Cons.prems by (simp add: push_length)
  from Cons.IH[OF len, of w1]
  have "\<exists>rs h' w'. executeToolCalls env defs hs ctx tcs (push ctx m h, w1) = (h', w') \<and>
      length h' = length (push ctx m h) \<and> h' ! ctx = push ctx m h ! ctx @ rs \<and>
      (\<forall>a. a \<noteq> ctx \<longrightarrow> h' ! a = push ctx m h ! a) \<and> list_all2 answers tcs rs \<and>
      list_all2 (\<lambda>tc m. hs (tc_name tc) = None \<or> isl (validateToolCall env defs tc) \<longrightarrow> flagged m) tcs rs" .
  then obtain rs h' w' where
    2: "executeToolCalls env defs hs ctx tcs (push ctx m h, w1) = (h', w')"
       "length h' = length (push ctx m h)" "h' ! ctx = push ctx m h ! ctx @ rs"
       "\<forall>a. a \<noteq> ctx \<longrightarrow> h' ! a = push ctx m h ! a"
       "list_all2 answers tcs rs"
       "list_all2 (\<lambda>tc m. hs (tc_name tc) = None \<or> isl (validateToolCall env defs tc) \<longrightarrow> flagged m) tcs rs"
    by (elim exE conjE) blast
  have f: "hs (tc_name tc) = None \<or> isl (validateToolCall env defs tc) \<longrightarrow> flagged m"
    using fl by (auto split: option.splits sum.splits)
  have a: "executeToolCalls env defs hs ctx (tc # tcs) (h, w) = (h', w')"
    using 1(1) 2(1) by simp
  have b: "length h' = length h" using 2(2) by (simp add: push_length)
  have c: "h' ! ctx = h ! ctx @ (m # rs)" using 2(3) Cons.prems by (simp add: push_nth)
  have d: "\<forall>a. a \<noteq> ctx \<longrightarrow> h' ! a = h ! a" using 2(4) by (simp add: push_other)
  have e: "list_all2 answers (tc # tcs) (m # rs)" using 1(2) 2(5) by simp
  have g: "list_all2 (\<lambda>tc m. hs (tc_name tc) = None \<or> isl (validateToolCall env defs tc) \<longrightarrow> flagged m) (tc # tcs) (m # rs)"
    using f 2(6) by simp
  show ?case using a b c d e g by (intro exI[of _ "m # rs"] exI[of _ h'] exI[of _ w'] conjI)
qed

lemma turn_threw:
  "stream env sp (heap s ! ctx) defs (world s) = (Inl err, w1) \<Longrightarrow>
   turn env sp defs hs ctx s = Threw err \<lparr>heap = heap s, world = w1, turnCount = turnCount s + 1\<rparr>"
  by (simp add: turn_def)

lemma turn_returned:
  "stream env sp (heap s ! ctx) defs (world s) = (Inr (events, am), w1) \<Longrightarrow>
   issuedToolCalls events = [] \<Longrightarrow>
   turn env sp defs hs ctx s =
     Returned (deltaText events)
       \<lparr>heap = push ctx (Assistant am) (heap s), world = w1, turnCount = turnCount s + 1\<rparr>"
  by (simp add: turn_def consume_start)

lemma turn_continue:
  "stream env sp (heap s ! ctx) defs (world s) = (Inr (events, am), w1) \<Longrightarrow>
   issuedToolCalls events \<noteq> [] \<Longrightarrow>
   executeToolCalls env defs hs ctx (issuedToolCalls events) (push ctx (Assistant am) (heap s), w1) = (h2, w2) \<Longrightarrow>
   turn env sp defs hs ctx s = Continue \<lparr>heap = h2, world = w2, turnCount = turnCount s + 1\<rparr>"
  by (simp add: turn_def consume_start)

lemma tool_results_appended:
  assumes st: "stream env sp (heap s ! ctx) defs (world s) = (Inr (events, am), w1)"
      and ne: "issuedToolCalls events \<noteq> []"
      and ctx: "ctx < length (heap s)"
  shows "\<exists>s' rs. turn env sp defs hs ctx s = Continue s' \<and>
           heap s' ! ctx = heap s ! ctx @ Assistant am # rs \<and>
           length (heap s') = length (heap s) \<and>
           (\<forall>a. a \<noteq> ctx \<longrightarrow> heap s' ! a = heap s ! a) \<and>
           turnCount s' = turnCount s + 1 \<and>
           list_all2 answers (issuedToolCalls events) rs \<and>
           list_all2 (\<lambda>tc m. hs (tc_name tc) = None \<or> isl (validateToolCall env defs tc) \<longrightarrow> flagged m)
             (issuedToolCalls events) rs"
proof -
  let ?h1 = "push ctx (Assistant am) (heap s)"
  have len: "ctx < length ?h1" using ctx by (simp add: push_length)
  from executeToolCalls_results[OF len, of env defs hs "issuedToolCalls events" w1]
  obtain rs h2 w2 where
    2: "executeToolCalls env defs hs ctx (issuedToolCalls events) (?h1, w1) = (h2, w2)"
       "length h2 = length ?h1" "h2 ! ctx = ?h1 ! ctx @ rs"
       "\<forall>a. a \<noteq> ctx \<longrightarrow> h2 ! a = ?h1 ! a"
       "list_all2 answers (issuedToolCalls events) rs"
       "list_all2 (\<lambda>tc m. hs (tc_name tc) = None \<or> isl (validateToolCall env defs tc) \<longrightarrow> flagged m) (issuedToolCalls events) rs"
    by (elim exE conjE) blast
  let ?s' = "\<lparr>heap = h2, world = w2, turnCount = turnCount s + 1\<rparr>"
  have a: "turn env sp defs hs ctx s = Continue ?s'"
    using turn_continue[OF st ne 2(1)] .
  have b: "heap ?s' ! ctx = heap s ! ctx @ Assistant am # rs"
    using 2(3) ctx by (simp add: push_nth)
  have c: "length (heap ?s') = length (heap s)" using 2(2) by (simp add: push_length)
  have d: "\<forall>a. a \<noteq> ctx \<longrightarrow> heap ?s' ! a = heap s ! a" using 2(4) by (simp add: push_other)
  have e: "turnCount ?s' = turnCount s + 1" by simp
  show ?thesis using a b c d e 2(5) 2(6) by (intro exI[of _ ?s'] exI[of _ rs] conjI)
qed

lemmas loop_induct = runAgent_loop.raw_induct[rotated 1, consumes 1]

lemma turn_frame:
  assumes ctx: "ctx < length (heap s)"
  shows "(case turn env sp defs hs ctx s of
            Returned t s' \<Rightarrow> length (heap s') = length (heap s) \<and>
               (\<forall>a. a \<noteq> ctx \<longrightarrow> heap s' ! a = heap s ! a) \<and> (\<exists>added. heap s' ! ctx = heap s ! ctx @ added)
          | Continue s' \<Rightarrow> length (heap s') = length (heap s) \<and>
               (\<forall>a. a \<noteq> ctx \<longrightarrow> heap s' ! a = heap s ! a) \<and> (\<exists>added. heap s' ! ctx = heap s ! ctx @ added)
          | Threw e s' \<Rightarrow> length (heap s') = length (heap s) \<and>
               (\<forall>a. a \<noteq> ctx \<longrightarrow> heap s' ! a = heap s ! a) \<and> (\<exists>added. heap s' ! ctx = heap s ! ctx @ added))"
proof (cases "stream env sp (heap s ! ctx) defs (world s)")
  case (Pair r w1)
  show ?thesis
  proof (cases r)
    case (Inl err)
    with Pair show ?thesis by (simp add: turn_threw)
  next
    case (Inr p)
    obtain events am where p: "p = (events, am)" by (cases p)
    have st: "stream env sp (heap s ! ctx) defs (world s) = (Inr (events, am), w1)"
      using Pair Inr p by simp
    show ?thesis
    proof (cases "issuedToolCalls events = []")
      case True
      show ?thesis using ctx by (simp add: turn_returned[OF st True] push_length push_other push_nth)
    next
      case False
      from tool_results_appended[OF st False ctx, of hs]
      obtain s' rs where "turn env sp defs hs ctx s = Continue s'"
        "heap s' ! ctx = heap s ! ctx @ Assistant am # rs"
        "length (heap s') = length (heap s)"
        "\<forall>a. a \<noteq> ctx \<longrightarrow> heap s' ! a = heap s ! a"
        by (elim exE conjE) blast
      then show ?thesis by simp
    qed
  qed
qed

lemma framed_trans: "framed ctx s s1 \<Longrightarrow> framed ctx s1 s2 \<Longrightarrow> framed ctx s s2"
  unfolding framed_def by (elim conjE exE) simp

lemma loop_frame:
  "runAgent_loop env sp defs hs ctx s = Some y \<Longrightarrow> ctx < length (heap s) \<Longrightarrow> framed ctx s (snd y)"
proof (induction env sp defs hs ctx s y rule: loop_induct)
  case (1 loop env sp defs hs ctx s y)
  have tf: "case turn env sp defs hs ctx s of
            Returned t s' \<Rightarrow> framed ctx s s'
          | Continue s' \<Rightarrow> framed ctx s s'
          | Threw e s' \<Rightarrow> framed ctx s s'"
    using turn_frame[OF 1(3), of env sp defs hs] unfolding framed_def by (simp split: turn_outcome.splits)
  show ?case
  proof (cases "turn env sp defs hs ctx s")
    case (Returned t s')
    with 1(2) tf show ?thesis by auto
  next
    case (Continue s1)
    with 1(2) have "loop env sp defs hs ctx s1 = Some y" by simp
    moreover have f1: "framed ctx s s1" using tf Continue by simp
    moreover have "ctx < length (heap s1)" using f1 1(3) by (simp add: framed_def)
    ultimately have "framed ctx s1 (snd y)" using 1(1) by blast
    with f1 show ?thesis by (rule framed_trans)
  next
    case (Threw e s')
    with 1(2) tf show ?thesis by auto
  qed
qed

lemma loop_returns_final_turn:
  "runAgent_loop env sp defs hs ctx s = Some y \<Longrightarrow>
   \<exists>n s0. iterate_turns n env sp defs hs ctx s = Continue s0 \<and>
     (case fst y of
        Inr t \<Rightarrow> turn env sp defs hs ctx s0 = Returned t (snd y)
      | Inl e \<Rightarrow> turn env sp defs hs ctx s0 = Threw e (snd y))"
proof (induction env sp defs hs ctx s y rule: loop_induct)
  case (1 loop env sp defs hs ctx s y)
  show ?case
  proof (cases "turn env sp defs hs ctx s")
    case (Returned t s')
    with 1(2) have "y = (Inr t, s')" by simp
    with Returned have "iterate_turns 0 env sp defs hs ctx s = Continue s \<and>
      (case fst y of
        Inr t \<Rightarrow> turn env sp defs hs ctx s = Returned t (snd y)
      | Inl e \<Rightarrow> turn env sp defs hs ctx s = Threw e (snd y))" by simp
    then show ?thesis by blast
  next
    case (Continue s1)
    with 1(2) have "loop env sp defs hs ctx s1 = Some y" by simp
    from 1(1)[OF this] obtain n s0 where
      n: "iterate_turns n env sp defs hs ctx s1 = Continue s0"
      "(case fst y of
        Inr t \<Rightarrow> turn env sp defs hs ctx s0 = Returned t (snd y)
      | Inl e \<Rightarrow> turn env sp defs hs ctx s0 = Threw e (snd y))" by blast
    have "iterate_turns (Suc n) env sp defs hs ctx s = Continue s0"
      using Continue n(1) by simp
    with n(2) show ?thesis by blast
  next
    case (Threw e s')
    with 1(2) have "y = (Inl e, s')" by simp
    with Threw have "iterate_turns 0 env sp defs hs ctx s = Continue s \<and>
      (case fst y of
        Inr t \<Rightarrow> turn env sp defs hs ctx s = Returned t (snd y)
      | Inl e \<Rightarrow> turn env sp defs hs ctx s = Threw e (snd y))" by simp
    then show ?thesis by blast
  qed
qed

lemma turn_Returned_iff:
  "turn env sp defs hs ctx s = Returned t s' \<Longrightarrow>
   \<exists>events am w1. stream env sp (heap s ! ctx) defs (world s) = (Inr (events, am), w1) \<and>
      issuedToolCalls events = [] \<and> t = deltaText events \<and>
      s' = \<lparr>heap = push ctx (Assistant am) (heap s), world = w1, turnCount = turnCount s + 1\<rparr>"
  by (auto simp: turn_def consume_start Let_def split: prod.splits sum.splits if_splits)

lemma chatty_turn:
  assumes chatty: "\<forall>msgs w. \<exists>events am w1.
     stream env sp msgs defs w = (Inr (events, am), w1) \<and> issuedToolCalls events \<noteq> []"
  shows "\<exists>s'. turn env sp defs hs ctx s = Continue s' \<and> turnCount s' = turnCount s + 1"
proof -
  from chatty obtain events am w1 where
    st: "stream env sp (heap s ! ctx) defs (world s) = (Inr (events, am), w1)"
    and ne: "issuedToolCalls events \<noteq> []" by blast
  obtain h2 w2 where "executeToolCalls env defs hs ctx (issuedToolCalls events) (push ctx (Assistant am) (heap s), w1) = (h2, w2)"
    by (cases "executeToolCalls env defs hs ctx (issuedToolCalls events) (push ctx (Assistant am) (heap s), w1)")
  from turn_continue[OF st ne this] show ?thesis by simp
qed

lemma chatty_no_result:
  "runAgent_loop env sp defs hs ctx s = Some y \<Longrightarrow>
   \<forall>msgs w. \<exists>events am w1.
     stream env sp msgs defs w = (Inr (events, am), w1) \<and> issuedToolCalls events \<noteq> [] \<Longrightarrow> False"
proof (induction env sp defs hs ctx s y rule: loop_induct)
  case (1 loop env sp defs hs ctx s y)
  from chatty_turn[OF 1(3), of hs ctx s] obtain s1 where "turn env sp defs hs ctx s = Continue s1" by blast
  with 1(2) have "loop env sp defs hs ctx s1 = Some y" by simp
  from 1(1)[OF this 1(3)] show ?case .
qed

lemma loop_never_returns:
  assumes chatty: "\<forall>msgs w. \<exists>events am w1.
     stream env sp msgs defs w = (Inr (events, am), w1) \<and> issuedToolCalls events \<noteq> []"
  shows "runAgent_loop env sp defs hs ctx s = None"
proof (cases "runAgent_loop env sp defs hs ctx s")
  case None
  then show ?thesis .
next
  case (Some y)
  from chatty_no_result[OF Some chatty] show ?thesis ..
qed

lemma chatty_turns:
  assumes chatty: "\<forall>msgs w. \<exists>events am w1.
     stream env sp msgs defs w = (Inr (events, am), w1) \<and> issuedToolCalls events \<noteq> []"
  shows "\<exists>s'. iterate_turns N env sp defs hs ctx s = Continue s' \<and> turnCount s' = turnCount s + N"
proof (induction N arbitrary: s)
  case 0
  then show ?case by simp
next
  case (Suc N)
  from chatty_turn[OF chatty, of hs ctx s] obtain s1 where
    t: "turn env sp defs hs ctx s = Continue s1" "turnCount s1 = turnCount s + 1" by blast
  from Suc[of s1] obtain s' where
    "iterate_turns N env sp defs hs ctx s1 = Continue s'" "turnCount s' = turnCount s1 + N" by blast
  with t show ?case by simp
qed


lemma demo_stream_later:
  "stream demoEnv [] (heap laterState ! 0) [] (world laterState) = (Inr (finalEvents, demoAnswer), 2)"
  by (simp add: demoEnv_def laterState_def finalEvents_def)



text \<open>
  C2. When a generation issues no tool call, the loop returns at that turn: the value
  returned is the text of the generation's deltas, and the working history has grown by
  exactly one message, the assistant message the provider delivered with the completed
  generation; no other array of the store has changed.
\<close>

theorem zero_tool_calls_returns_text:
  assumes "stream env sp (heap s ! ctx) defs (world s) = (Inr (events, am), w1)"
      and "issuedToolCalls events = []"
      and "ctx < length (heap s)"
  shows "\<exists>s'. runAgent_loop env sp defs hs ctx s = Some (Inr (deltaText events), s') \<and>
           heap s' ! ctx = heap s ! ctx @ [Assistant am] \<and>
           length (heap s') = length (heap s) \<and>
           (\<forall>a. a \<noteq> ctx \<longrightarrow> heap s' ! a = heap s ! a)"
proof -
  let ?s' = "\<lparr>heap = push ctx (Assistant am) (heap s), world = w1, turnCount = turnCount s + 1\<rparr>"
  have "runAgent_loop env sp defs hs ctx s = Some (Inr (deltaText events), ?s')"
    by (subst runAgent_loop.simps) (simp add: turn_returned[OF assms(1,2)])
  moreover have "heap ?s' ! ctx = heap s ! ctx @ [Assistant am]"
    using assms(3) by (simp add: push_nth)
  moreover have "length (heap ?s') = length (heap s)" by (simp add: push_length)
  moreover have "\<forall>a. a \<noteq> ctx \<longrightarrow> heap ?s' ! a = heap s ! a" by (simp add: push_other)
  ultimately show ?thesis by (intro exI[of _ ?s'] conjI)
qed

theorem zero_tool_calls_returns_text_witness:
  "stream demoEnv [] (heap laterState ! 0) [] (world laterState) = (Inr (finalEvents, demoAnswer), 2) \<and>
   issuedToolCalls finalEvents = [] \<and> 0 < length (heap laterState) \<and>
   (\<exists>s'. runAgent_loop demoEnv [] [] Map.empty 0 laterState = Some (Inr (deltaText finalEvents), s') \<and>
      heap s' ! 0 = heap laterState ! 0 @ [Assistant demoAnswer] \<and>
      length (heap s') = length (heap laterState) \<and>
      (\<forall>a. a \<noteq> 0 \<longrightarrow> heap s' ! a = heap laterState ! a))"
proof -
  have b: "issuedToolCalls finalEvents = []" by (simp add: finalEvents_def)
  have c: "0 < length (heap laterState)" by (simp add: laterState_def demoStore_def)
  from zero_tool_calls_returns_text[OF demo_stream_later b c, of Map.empty]
  show ?thesis using demo_stream_later b c by (intro conjI) simp_all
qed

text \<open>
  C10. Whenever the loop returns a text, that text is the joined deltas of one
  generation only: the one of the final turn, which issued no tool call. The turns
  before it went on to the next turn, and nothing they streamed is carried over.
\<close>

theorem returned_text_is_final_turn_text:
  assumes "runAgent_loop env sp defs hs ctx s = Some (Inr t, s')"
  shows "\<exists>n s0 events am w1.
           iterate_turns n env sp defs hs ctx s = Continue s0 \<and>
           stream env sp (heap s0 ! ctx) defs (world s0) = (Inr (events, am), w1) \<and>
           issuedToolCalls events = [] \<and> t = deltaText events \<and>
           turnCount s' = turnCount s0 + 1"
proof -
  from loop_returns_final_turn[OF assms] obtain n s0 where
    n: "iterate_turns n env sp defs hs ctx s = Continue s0"
    and r: "turn env sp defs hs ctx s0 = Returned t s'" by auto
  from turn_Returned_iff[OF r] obtain events am w1 where
    "stream env sp (heap s0 ! ctx) defs (world s0) = (Inr (events, am), w1)"
    "issuedToolCalls events = []" "t = deltaText events"
    "s' = \<lparr>heap = push ctx (Assistant am) (heap s0), world = w1, turnCount = turnCount s0 + 1\<rparr>"
    by blast
  with n show ?thesis by (intro exI[of _ n] exI[of _ s0] exI[of _ events] exI[of _ am] exI[of _ w1]) simp
qed

lemma demo_run:
  "runAgent_loop demoEnv [] [] (mkToolHandlers [demoTool]) 0 demoState =
     Some (Inr (js ''It is four.''),
       \<lparr>heap = [[User [TextContent (js ''what is 2+2'')] 5, Assistant demoAnswer,
                 successToolResult demoCall [TextContent (js ''found'')] 1700000000000,
                 unknownToolResult strayCall 1700000000000, Assistant demoAnswer]],
        world = 2, turnCount = 2\<rparr>)"
  by code_simp

theorem returned_text_is_final_turn_text_witness:
  "runAgent_loop demoEnv [] [] (mkToolHandlers [demoTool]) 0 demoState =
     Some (Inr (js ''It is four.''),
       \<lparr>heap = [[User [TextContent (js ''what is 2+2'')] 5, Assistant demoAnswer,
                 successToolResult demoCall [TextContent (js ''found'')] 1700000000000,
                 unknownToolResult strayCall 1700000000000, Assistant demoAnswer]],
        world = 2, turnCount = 2\<rparr>) \<and>
   (\<exists>n s0 events am w1.
      iterate_turns n demoEnv [] [] (mkToolHandlers [demoTool]) 0 demoState = Continue s0 \<and>
      stream demoEnv [] (heap s0 ! 0) [] (world s0) = (Inr (events, am), w1) \<and>
      issuedToolCalls events = [] \<and> js ''It is four.'' = deltaText events \<and>
      (2::nat) = turnCount s0 + 1)"
  using returned_text_is_final_turn_text[OF demo_run] demo_run by simp

text \<open>
  C8. The loop has no cap on turns. With a model client whose every generation issues
  at least one tool call, the loop never returns, and for every \<open>N\<close> it is still
  running after \<open>N\<close> turns, its turn counter advanced by \<open>N\<close>. And whenever the loop
  returns a text, it does so at a turn whose generation issued no tool call.
\<close>

theorem no_cap_on_turns:
  "((\<forall>msgs w. \<exists>events am w1.
        stream env sp msgs defs w = (Inr (events, am), w1) \<and> issuedToolCalls events \<noteq> []) \<longrightarrow>
      runAgent_loop env sp defs hs ctx s = None \<and>
      (\<forall>N. \<exists>s'. iterate_turns N env sp defs hs ctx s = Continue s' \<and>
                 turnCount s' = turnCount s + N)) \<and>
   (\<forall>t s'. runAgent_loop env sp defs hs ctx s = Some (Inr t, s') \<longrightarrow>
      (\<exists>n s0 events am w1.
         iterate_turns n env sp defs hs ctx s = Continue s0 \<and>
         stream env sp (heap s0 ! ctx) defs (world s0) = (Inr (events, am), w1) \<and>
         issuedToolCalls events = []))"
proof (intro conjI impI allI)
  assume chatty: "\<forall>msgs w. \<exists>events am w1.
        stream env sp msgs defs w = (Inr (events, am), w1) \<and> issuedToolCalls events \<noteq> []"
  show "runAgent_loop env sp defs hs ctx s = None"
    using chatty by (rule loop_never_returns)
  show "\<exists>s'. iterate_turns N env sp defs hs ctx s = Continue s' \<and> turnCount s' = turnCount s + N" for N
    using chatty by (rule chatty_turns)
next
  fix t s'
  assume ret: "runAgent_loop env sp defs hs ctx s = Some (Inr t, s')"
  from loop_returns_final_turn[OF ret] obtain n s0 where
    n: "iterate_turns n env sp defs hs ctx s = Continue s0"
    and r: "turn env sp defs hs ctx s0 = Returned t s'" by auto
  from turn_Returned_iff[OF r] obtain events am w1 where
    "stream env sp (heap s0 ! ctx) defs (world s0) = (Inr (events, am), w1)"
    "issuedToolCalls events = []" by blast
  with n show "\<exists>n s0 events am w1.
         iterate_turns n env sp defs hs ctx s = Continue s0 \<and>
         stream env sp (heap s0 ! ctx) defs (world s0) = (Inr (events, am), w1) \<and>
         issuedToolCalls events = []"
    by (intro exI[of _ n] exI[of _ s0] exI[of _ events] exI[of _ am] exI[of _ w1]) simp
qed

lemma chatty_always_calls:
  "\<forall>msgs w. \<exists>events am w1.
      stream chattyEnv [] msgs [] w = (Inr (events, am), w1) \<and> issuedToolCalls events \<noteq> []"
  by (simp add: chattyEnv_def)

theorem no_cap_on_turns_witness:
  "(\<forall>msgs w. \<exists>events am w1.
      stream chattyEnv [] msgs [] w = (Inr (events, am), w1) \<and> issuedToolCalls events \<noteq> []) \<and>
   runAgent_loop chattyEnv [] [] Map.empty 0 chattyState = None \<and>
   (\<forall>N. \<exists>s'. iterate_turns N chattyEnv [] [] Map.empty 0 chattyState = Continue s' \<and>
              turnCount s' = turnCount chattyState + N) \<and>
   runAgent_loop demoEnv [] [] (mkToolHandlers [demoTool]) 0 demoState =
     Some (Inr (js ''It is four.''),
       \<lparr>heap = [[User [TextContent (js ''what is 2+2'')] 5, Assistant demoAnswer,
                 successToolResult demoCall [TextContent (js ''found'')] 1700000000000,
                 unknownToolResult strayCall 1700000000000, Assistant demoAnswer]],
        world = 2, turnCount = 2\<rparr>) \<and>
   (\<exists>n s0 events am w1.
      iterate_turns n demoEnv [] [] (mkToolHandlers [demoTool]) 0 demoState = Continue s0 \<and>
      stream demoEnv [] (heap s0 ! 0) [] (world s0) = (Inr (events, am), w1) \<and>
      issuedToolCalls events = [])"
proof -
  have 1: "runAgent_loop chattyEnv [] [] Map.empty 0 chattyState = None \<and>
      (\<forall>N. \<exists>s'. iterate_turns N chattyEnv [] [] Map.empty 0 chattyState = Continue s' \<and>
              turnCount s' = turnCount chattyState + N)"
    using no_cap_on_turns[of chattyEnv "[]" "[]" Map.empty 0 chattyState] chatty_always_calls
    by blast
  have 2: "\<exists>n s0 events am w1.
      iterate_turns n demoEnv [] [] (mkToolHandlers [demoTool]) 0 demoState = Continue s0 \<and>
      stream demoEnv [] (heap s0 ! 0) [] (world s0) = (Inr (events, am), w1) \<and>
      issuedToolCalls events = []"
    using no_cap_on_turns[of demoEnv "[]" "[]" "mkToolHandlers [demoTool]" 0 demoState] demo_run
    by blast
  show ?thesis using 1 2 chatty_always_calls demo_run by (intro conjI) blast+
qed

text \<open>
  C9. \<open>runAgent\<close> works on a copy. When it ends, by returning or by an exception of the
  model client, every array the store held at the call, the caller's array among them,
  has the contents it had; the store has one array more, the working history, which
  starts with the caller's messages and holds everything the run appended.
\<close>

theorem caller_messages_unchanged:
  assumes "runAgent env messages sp customTools h w = Some (r, s')"
      and "messages < length h"
  shows "(\<forall>a. a < length h \<longrightarrow> heap s' ! a = h ! a) \<and>
         length (heap s') = Suc (length h) \<and>
         (\<exists>added. heap s' ! length h = h ! messages @ added)"
proof -
  let ?s0 = "\<lparr>heap = h @ [h ! messages], world = w, turnCount = 0\<rparr>"
  let ?allTools = "codingTools env @ customTools"
  have run: "runAgent_loop env sp (map toolDef ?allTools) (mkToolHandlers ?allTools) (length h) ?s0 = Some (r, s')"
    using assms(1) by (simp add: runAgent_def spread_def Let_def)
  have "length h < length (heap ?s0)" by simp
  from loop_frame[OF run this] have f: "framed (length h) ?s0 s'" by simp
  have a: "\<forall>a. a < length h \<longrightarrow> heap s' ! a = h ! a"
    using f by (auto simp: framed_def nth_append)
  have b: "length (heap s') = Suc (length h)" using f by (simp add: framed_def)
  have c: "\<exists>added. heap s' ! length h = h ! messages @ added"
    using f by (simp add: framed_def)
  show ?thesis using a b c by (intro conjI)
qed

lemma demo_runAgent:
  "runAgent demoEnv 0 [] [demoTool] demoStore 0 =
     Some (Inr (js ''It is four.''),
       \<lparr>heap = [[User [TextContent (js ''what is 2+2'')] 5],
                [User [TextContent (js ''what is 2+2'')] 5, Assistant demoAnswer,
                 successToolResult demoCall [TextContent (js ''found'')] 1700000000000,
                 unknownToolResult strayCall 1700000000000, Assistant demoAnswer]],
        world = 2, turnCount = 2\<rparr>)"
  by code_simp

theorem caller_messages_unchanged_witness:
  "runAgent demoEnv 0 [] [demoTool] demoStore 0 =
     Some (Inr (js ''It is four.''),
       \<lparr>heap = [[User [TextContent (js ''what is 2+2'')] 5],
                [User [TextContent (js ''what is 2+2'')] 5, Assistant demoAnswer,
                 successToolResult demoCall [TextContent (js ''found'')] 1700000000000,
                 unknownToolResult strayCall 1700000000000, Assistant demoAnswer]],
        world = 2, turnCount = 2\<rparr>) \<and>
   0 < length demoStore \<and>
   [[User [TextContent (js ''what is 2+2'')] 5],
    [User [TextContent (js ''what is 2+2'')] 5, Assistant demoAnswer,
     successToolResult demoCall [TextContent (js ''found'')] 1700000000000,
     unknownToolResult strayCall 1700000000000, Assistant demoAnswer]] ! 0 = demoStore ! 0"
proof -
  have c: "0 < length demoStore" by (simp add: demoStore_def)
  from caller_messages_unchanged[OF demo_runAgent c]
  have "\<forall>a. a < length demoStore \<longrightarrow>
          heap \<lparr>heap = [[User [TextContent (js ''what is 2+2'')] 5],
                [User [TextContent (js ''what is 2+2'')] 5, Assistant demoAnswer,
                 successToolResult demoCall [TextContent (js ''found'')] 1700000000000,
                 unknownToolResult strayCall 1700000000000, Assistant demoAnswer]],
        world = 2::nat, turnCount = 2\<rparr> ! a = demoStore ! a" by (rule conjunct1)
  with c have "[[User [TextContent (js ''what is 2+2'')] 5],
    [User [TextContent (js ''what is 2+2'')] 5, Assistant demoAnswer,
     successToolResult demoCall [TextContent (js ''found'')] 1700000000000,
     unknownToolResult strayCall 1700000000000, Assistant demoAnswer]] ! 0 = demoStore ! 0"
    by (simp del: nth_Cons_0)
  with c demo_runAgent show ?thesis by (intro conjI)
qed

section \<open>Properties of the streaming renderer\<close>

lemma editMessage_closed:
  "\<not> gateOpen tr newText force s \<Longrightarrow>
   editMessage tr newText force s = Inr (s\<lparr>tworld := snd (clock tr (tworld s))\<rparr>)"
  by (auto simp: editMessage_def gateOpen_def Let_def split: prod.splits)

lemma editMessage_accepted:
  "gateOpen tr newText force s \<Longrightarrow> clock tr (tworld s) = (now, w) \<Longrightarrow>
   editMessageText tr (shownText newText) w = (None, w') \<Longrightarrow>
   editMessage tr newText force s =
     Inr (s\<lparr>lastEditTime := now, lastEditedText := newText,
            calls := calls s @ [EditMessageText (shownText newText) None], tworld := w'\<rparr>)"
  by (auto simp: editMessage_def gateOpen_def tryEdit_def Let_def)

lemma editMessage_rejected:
  "gateOpen tr newText force s \<Longrightarrow> clock tr (tworld s) = (now, w) \<Longrightarrow>
   editMessageText tr (shownText newText) w = (Some msg, w') \<Longrightarrow>
   editMessage tr newText force s =
     Inr (s\<lparr>calls := calls s @ [EditMessageText (shownText newText) (Some msg)],
            warnings := (if str_includes msg (js ''not modified'') then warnings s
                         else warnings s @ [js ''Edit failed: '' @ msg]),
            tworld := w'\<rparr>)"
  by (auto simp: editMessage_def gateOpen_def tryEdit_def Let_def)

lemma editMessage_total: "\<exists>s'. editMessage tr newText force s = Inr s'"
proof (cases "gateOpen tr newText force s")
  case False
  then show ?thesis by (simp add: editMessage_closed)
next
  case True
  obtain now w where c: "clock tr (tworld s) = (now, w)" by (cases "clock tr (tworld s)")
  obtain r w' where e: "editMessageText tr (shownText newText) w = (r, w')"
    by (cases "editMessageText tr (shownText newText) w")
  show ?thesis
  proof (cases r)
    case None
    with editMessage_accepted[OF True c] e show ?thesis by simp
  next
    case (Some msg)
    with editMessage_rejected[OF True c] e show ?thesis by simp
  qed
qed

lemma rendered_snoc: "rendered (cs @ [c]) = viewAfter (rendered cs) c"
  by (simp add: rendered_def)

lemma handleEvent_total: "\<exists>s'. handleEvent tr ev s = Inr s'"
  by (cases ev) (simp_all add: handleEvent_def editMessage_total Let_def)

lemma processEvents_total: "\<exists>s'. processEvents tr evs s = Inr s'"
proof (induction evs arbitrary: s)
  case Nil
  then show ?case by simp
next
  case (Cons ev evs)
  obtain s1 where "handleEvent tr ev s = Inr s1" using handleEvent_total by blast
  with Cons[of s1] show ?case by simp
qed

lemma slice_chunk:
  "i < length t \<Longrightarrow> slice t (int i) (int i + 4096) = take 4096 (drop i t)"
  by (auto simp: slice_def Let_def min_def)

lemma ceil_step:
  fixes m i n :: nat
  assumes "0 < m" and "i < n"
  shows "(n - i + (m - 1)) div m = Suc ((n - (i + m) + (m - 1)) div m)"
proof (cases "m \<le> n - i")
  case True
  then have e: "n - i + (m - 1) = (n - (i + m) + (m - 1)) + m" by arith
  have "((n - (i + m) + (m - 1)) + m) div m = (n - (i + m) + (m - 1)) div m + 1"
    using assms(1) by (intro div_add_self2) simp
  with e show ?thesis by (simp only: Suc_eq_plus1)
next
  case False
  then have z: "n - (i + m) = 0" by arith
  have "(m - 1) div m = 0" using assms(1) by simp
  moreover have "(n - i + (m - 1)) div m = 1"
  proof (rule div_nat_eqI)
    show "m * 1 \<le> n - i + (m - 1)" using assms by arith
    show "n - i + (m - 1) < m * Suc 1" using False assms by simp
  qed
  ultimately show ?thesis using z by simp
qed

lemma ceil_step_4096:
  "i < n \<Longrightarrow> (n - i + 4095) div 4096 = Suc ((n - (i + 4096) + 4095) div (4096::nat))"
  using ceil_step[of 4096 i n] by simp

lemma sendChunks_ok:
  assumes acc: "\<forall>t w. fst (reply tr t w) = None"
  shows "\<exists>ps w'. sendChunks tr t i (cs, w) = Inr (cs @ map Reply ps, w') \<and>
           concat ps = drop i t \<and> length ps = (length t - i + 4095) div 4096 \<and>
           (\<forall>p. p \<in> set ps \<longrightarrow> length p \<le> 4096)"
proof (induction "length t - i" arbitrary: i cs w rule: less_induct)
  case less
  show ?case
  proof (cases "i < length t")
    case False
    then have "sendChunks tr t i (cs, w) = Inr (cs @ map Reply [], w)"
      by (subst sendChunks.simps) simp
    moreover have "concat [] = drop i t" using False by simp
    moreover have "length ([]::jsstring list) = (length t - i + 4095) div 4096" using False by simp
    ultimately show ?thesis by (intro exI[of _ "[]"] exI[of _ w]) simp
  next
    case True
    let ?p = "take 4096 (drop i t)"
    obtain r w1 where r: "reply tr ?p w = (r, w1)" by (cases "reply tr ?p w")
    from acc have "fst (reply tr ?p w) = None" by blast
    with r have rn: "r = None" by simp
    have m: "length t - (i + 4096) < length t - i" using True by simp
    from less[OF m, of "cs @ [Reply ?p]" w1] obtain ps w' where
      ih: "sendChunks tr t (i + 4096) (cs @ [Reply ?p], w1) = Inr ((cs @ [Reply ?p]) @ map Reply ps, w')"
          "concat ps = drop (i + 4096) t"
          "length ps = (length t - (i + 4096) + 4095) div 4096"
          "\<forall>p. p \<in> set ps \<longrightarrow> length p \<le> 4096" by blast
    have a: "sendChunks tr t i (cs, w) = Inr (cs @ map Reply (?p # ps), w')"
      using True r rn ih(1) by (subst sendChunks.simps) (simp add: slice_chunk)
    have b: "concat (?p # ps) = drop i t"
      using ih(2) by (simp add: add.commute[of i 4096] flip: drop_drop)
    have "length (?p # ps) = Suc (length ps)" by simp
    also have "\<dots> = Suc ((length t - (i + 4096) + 4095) div 4096)" by (simp only: ih(3))
    also have "\<dots> = (length t - i + 4095) div 4096" using ceil_step_4096[OF True] by (rule sym)
    finally have c: "length (?p # ps) = (length t - i + 4095) div 4096" .
    have d: "\<forall>p. p \<in> set (?p # ps) \<longrightarrow> length p \<le> 4096" using ih(4) by simp
    show ?thesis using a b c d by (intro exI[of _ "?p # ps"] exI[of _ w'] conjI)
  qed
qed

lemma overflowDelivery_ok:
  assumes acc: "\<forall>t w. fst (reply tr t w) = None" and big: "4096 < length (fullText s)"
  shows "\<exists>ps s'. overflowDelivery tr s = Inr s' \<and>
              calls s' = calls s @ DeleteMessage (fst (deleteMessage tr (tworld s))) # map Reply ps \<and>
              concat ps = fullText s \<and> length ps = (length (fullText s) + 4095) div 4096 \<and>
              (\<forall>p. p \<in> set ps \<longrightarrow> length p \<le> 4096)"
proof -
  obtain r w1 where d: "deleteMessage tr (tworld s) = (r, w1)" by (cases "deleteMessage tr (tworld s)")
  let ?s1 = "s\<lparr>calls := calls s @ [DeleteMessage r], tworld := w1\<rparr>"
  have dp: "discardPlaceholder tr s = Inr ?s1" using d by (simp add: discardPlaceholder_def)
  from sendChunks_ok[OF acc, of "fullText s" 0 "calls s @ [DeleteMessage r]" w1]
  obtain ps w' where
    sc: "sendChunks tr (fullText s) 0 (calls s @ [DeleteMessage r], w1) =
           Inr ((calls s @ [DeleteMessage r]) @ map Reply ps, w')"
      "concat ps = drop 0 (fullText s)"
      "length ps = (length (fullText s) - 0 + 4095) div 4096"
      "\<forall>p. p \<in> set ps \<longrightarrow> length p \<le> 4096" by blast
  let ?s' = "?s1\<lparr>calls := (calls s @ [DeleteMessage r]) @ map Reply ps, tworld := w'\<rparr>"
  have a: "overflowDelivery tr s = Inr ?s'"
    using big dp sc(1) by (simp add: overflowDelivery_def)
  have b: "calls ?s' = calls s @ DeleteMessage (fst (deleteMessage tr (tworld s))) # map Reply ps"
    using d by simp
  have c: "concat ps = fullText s" using sc(2) by simp
  have e: "length ps = (length (fullText s) + 4095) div 4096" using sc(3) by simp
  show ?thesis using a b c e sc(4) by (intro exI[of _ ps] exI[of _ ?s'] conjI)
qed



lemma flaky_replies: "\<forall>t w. fst (reply flakyTransport t w) = None"
  by (simp add: flakyTransport_def)


lemma editMessage_outcome:
  "\<exists>s'. editMessage tr newText force s = Inr s' \<and>
     (\<forall>shown msg. calls s' = calls s @ [EditMessageText shown (Some msg)] \<longrightarrow>
        warnings s' = (if str_includes msg (js ''not modified'') then warnings s
                       else warnings s @ [js ''Edit failed: '' @ msg]) \<and>
        lastEditedText s' = lastEditedText s \<and> lastEditTime s' = lastEditTime s \<and>
        fullText s' = fullText s \<and> currentToolIndicator s' = currentToolIndicator s)"
proof (cases "gateOpen tr newText force s")
  case False
  then show ?thesis by (simp add: editMessage_closed)
next
  case True
  obtain now w where c: "clock tr (tworld s) = (now, w)" by (cases "clock tr (tworld s)")
  obtain r w' where e: "editMessageText tr (shownText newText) w = (r, w')"
    by (cases "editMessageText tr (shownText newText) w")
  show ?thesis
  proof (cases r)
    case None
    with editMessage_accepted[OF True c] e show ?thesis by simp
  next
    case (Some msg)
    with editMessage_rejected[OF True c] e show ?thesis by simp
  qed
qed

lemma discardPlaceholder_outcome:
  "\<exists>s'. discardPlaceholder tr s = Inr s' \<and>
     calls s' = calls s @ [DeleteMessage (fst (deleteMessage tr (tworld s)))] \<and>
     warnings s' = warnings s"
  by (cases "deleteMessage tr (tworld s)") (simp add: discardPlaceholder_def)

lemma overflowDelivery_total:
  assumes acc: "\<forall>t w. fst (reply tr t w) = None"
  shows "\<exists>s'. overflowDelivery tr s = Inr s'"
proof (cases "4096 < length (fullText s)")
  case True
  from overflowDelivery_ok[OF acc True] show ?thesis by blast
next
  case False
  then show ?thesis by (simp add: overflowDelivery_def)
qed

lemma streamingMode_total:
  assumes acc: "\<forall>t w. fst (reply tr t w) = None"
  shows "\<exists>resp s'. streamingMode tr events w0 = Inr (resp, s')"
proof -
  obtain r w1 where p: "reply tr (js ''...'') w0 = (r, w1)" by (cases "reply tr (js ''...'') w0")
  from acc have "fst (reply tr (js ''...'') w0) = None" by blast
  with p have r: "r = None" by simp
  obtain s1 where s1: "processEvents tr events (initialRenderState w1) = Inr s1"
    using processEvents_total by blast
  obtain s2 where s2: "editMessage tr (fullText s1) True s1 = Inr s2"
    using editMessage_total by blast
  obtain s3 where s3: "overflowDelivery tr s2 = Inr s3"
    using overflowDelivery_total[OF acc] by blast
  show ?thesis using p r s1 s2 s3 by (simp add: streamingMode_def)
qed

text \<open>
  C7. \<open>editMessage\<close> never throws. When the transport refuses the edit, the renderer's
  record of the last edit and its other variables stay as they were, and a warning is
  logged unless the refusal says "not modified". Hence the event loop runs through all
  its events, the deletion of the placeholder never throws either, and the streaming
  branch as a whole ends without an exception as long as the sends are accepted.
\<close>

theorem edit_failures_swallowed:
  "(\<exists>s'. editMessage tr newText force s = Inr s' \<and>
     (\<forall>shown msg. calls s' = calls s @ [EditMessageText shown (Some msg)] \<longrightarrow>
        warnings s' = (if str_includes msg (js ''not modified'') then warnings s
                       else warnings s @ [js ''Edit failed: '' @ msg]) \<and>
        lastEditedText s' = lastEditedText s \<and> lastEditTime s' = lastEditTime s \<and>
        fullText s' = fullText s \<and> currentToolIndicator s' = currentToolIndicator s)) \<and>
   (\<exists>s'. processEvents tr events s = Inr s') \<and>
   (\<exists>s'. discardPlaceholder tr s = Inr s' \<and>
      calls s' = calls s @ [DeleteMessage (fst (deleteMessage tr (tworld s)))] \<and>
      warnings s' = warnings s) \<and>
   ((\<forall>t w. fst (reply tr t w) = None) \<longrightarrow>
      (\<exists>resp s'. streamingMode tr events w0 = Inr (resp, s')))"
  using editMessage_outcome[of tr newText force s] processEvents_total[of tr events s]
    discardPlaceholder_outcome[of tr s] streamingMode_total[of tr events w0]
  by (intro conjI impI) assumption+

lemma flaky_edit:
  "editMessage flakyTransport (js ''hi'') True (initialRenderState ()) = Inr flakyAfterEdit"
  by code_simp

lemma flaky_not_modified: "\<not> str_includes (js ''Too Many Requests'') (js ''not modified'')"
  by code_simp

theorem edit_failures_swallowed_witness:
  "editMessage flakyTransport (js ''hi'') True (initialRenderState ()) = Inr flakyAfterEdit \<and>
   calls flakyAfterEdit = calls (initialRenderState ()) @
      [EditMessageText (js ''hi'') (Some (js ''Too Many Requests''))] \<and>
   warnings flakyAfterEdit = warnings (initialRenderState ()) @
      [js ''Edit failed: '' @ js ''Too Many Requests''] \<and>
   lastEditedText flakyAfterEdit = lastEditedText (initialRenderState ()) \<and>
   (\<exists>s'. processEvents flakyTransport [TextDelta (js ''hi''), ToolStart (js ''bash''), ToolEnd]
            (initialRenderState ()) = Inr s') \<and>
   (\<exists>s'. discardPlaceholder flakyTransport longState = Inr s' \<and>
      calls s' = calls longState @ [DeleteMessage (Some (js ''message to delete not found''))]) \<and>
   (\<forall>t w. fst (reply flakyTransport t w) = None) \<and>
   (\<exists>resp s'. streamingMode flakyTransport [TextDelta (js ''hi''), Done (js ''hi'')] () = Inr (resp, s'))"
proof -
  have c: "calls flakyAfterEdit = calls (initialRenderState ()) @
      [EditMessageText (js ''hi'') (Some (js ''Too Many Requests''))]"
    by (simp add: flakyAfterEdit_def initialRenderState_def)
  have d: "fst (deleteMessage flakyTransport (tworld longState)) = Some (js ''message to delete not found'')"
    by (simp add: flakyTransport_def)
  from edit_failures_swallowed[of flakyTransport "js ''hi''" True "initialRenderState ()"
      "[TextDelta (js ''hi''), ToolStart (js ''bash''), ToolEnd]" "()"]
  have 1: "warnings flakyAfterEdit = warnings (initialRenderState ()) @
      [js ''Edit failed: '' @ js ''Too Many Requests''] \<and>
     lastEditedText flakyAfterEdit = lastEditedText (initialRenderState ())"
    and 2: "\<exists>s'. processEvents flakyTransport [TextDelta (js ''hi''), ToolStart (js ''bash''), ToolEnd]
            (initialRenderState ()) = Inr s'"
    using flaky_edit c flaky_not_modified by auto
  from edit_failures_swallowed[of flakyTransport "js ''hi''" True longState
      "[TextDelta (js ''hi''), Done (js ''hi'')]" "()"]
  have 3: "\<exists>s'. discardPlaceholder flakyTransport longState = Inr s' \<and>
      calls s' = calls longState @ [DeleteMessage (Some (js ''message to delete not found''))]"
    and 4: "\<exists>resp s'. streamingMode flakyTransport [TextDelta (js ''hi''), Done (js ''hi'')] () = Inr (resp, s')"
    using flaky_replies unfolding d by blast+
  show ?thesis using flaky_edit c 1 2 3 4 flaky_replies by (intro conjI) blast+
qed

lemma editMessage_shape:
  assumes "editMessage tr t f s = Inr s'"
  shows "fullText s' = fullText s \<and> currentToolIndicator s' = currentToolIndicator s \<and>
     ((calls s' = calls s \<and> lastEditedText s' = lastEditedText s \<and> warnings s' = warnings s \<and>
         (f \<longrightarrow> t = lastEditedText s)) \<or>
      (calls s' = calls s @ [EditMessageText (shownText t) None] \<and> lastEditedText s' = t \<and>
         t \<noteq> lastEditedText s) \<or>
      (\<exists>msg. calls s' = calls s @ [EditMessageText (shownText t) (Some msg)] \<and>
         lastEditedText s' = lastEditedText s \<and> t \<noteq> lastEditedText s))"
proof (cases "gateOpen tr t f s")
  case False
  with assms have "s' = s\<lparr>tworld := snd (clock tr (tworld s))\<rparr>" by (simp add: editMessage_closed)
  moreover from False have "f \<longrightarrow> t = lastEditedText s" by (auto simp: gateOpen_def)
  ultimately show ?thesis by simp
next
  case True
  then have ne: "t \<noteq> lastEditedText s" by (simp add: gateOpen_def)
  obtain now w where c: "clock tr (tworld s) = (now, w)" by (cases "clock tr (tworld s)")
  obtain r w' where e: "editMessageText tr (shownText t) w = (r, w')"
    by (cases "editMessageText tr (shownText t) w")
  show ?thesis
  proof (cases r)
    case None
    with editMessage_accepted[OF True c] e assms ne show ?thesis by auto
  next
    case (Some msg)
    with editMessage_rejected[OF True c] e assms ne show ?thesis by auto
  qed
qed

lemma rendered_edit_ok: "rendered (cs @ [EditMessageText t None]) = t"
  by (simp add: rendered_snoc viewAfter_def)

lemma rendered_edit_failed: "rendered (cs @ [EditMessageText t (Some msg)]) = rendered cs"
  by (simp add: rendered_snoc viewAfter_def)

lemma editMessage_consistent:
  assumes "editMessage tr t f s = Inr s'" and "consistent s"
  shows "consistent s'"
  using editMessage_shape[OF assms(1)] assms(2)
  by (auto simp: consistent_def rendered_edit_ok rendered_edit_failed)

lemma consistent_initial: "consistent (initialRenderState w)"
  by (simp add: consistent_def initialRenderState_def rendered_def viewAfter_def shownText_def
      displayText_def)

lemma handleEvent_consistent:
  assumes "handleEvent tr ev s = Inr s'" and "consistent s"
  shows "consistent s'"
proof (cases ev)
  case (TextDelta a)
  have "consistent (s\<lparr>fullText := a\<rparr>)" using assms(2) by (simp add: consistent_def)
  with assms(1) TextDelta show ?thesis by (auto simp: handleEvent_def Let_def dest: editMessage_consistent)
next
  case (ToolStart nm)
  have "consistent (s\<lparr>currentToolIndicator := toolIndicator nm\<rparr>)" using assms(2) by (simp add: consistent_def)
  with assms(1) ToolStart show ?thesis by (auto simp: handleEvent_def Let_def dest: editMessage_consistent)
next
  case ToolEnd
  have "consistent (s\<lparr>currentToolIndicator := []\<rparr>)" using assms(2) by (simp add: consistent_def)
  with assms(1) ToolEnd show ?thesis
    by (auto simp: handleEvent_def Let_def split: if_splits dest: editMessage_consistent)
next
  case (Done ft)
  with assms show ?thesis by (auto simp: handleEvent_def consistent_def)
qed

lemma processEvents_consistent:
  "processEvents tr evs s = Inr s' \<Longrightarrow> consistent s \<Longrightarrow> consistent s'"
proof (induction evs arbitrary: s)
  case Nil
  then show ?case by simp
next
  case (Cons ev evs)
  obtain s1 where h: "handleEvent tr ev s = Inr s1" using handleEvent_total by blast
  with Cons.prems(1) have "processEvents tr evs s1 = Inr s'" by simp
  moreover have "consistent s1" using handleEvent_consistent[OF h Cons.prems(2)] .
  ultimately show ?case by (rule Cons.IH)
qed









text \<open>
  When the transport refuses the first edit, the same text is sent a second time.
\<close>

theorem same_text_twice_counterexample:
  "editMessage flakyTransport (js ''hi'') True (initialRenderState ()) = Inr flakyAfterEdit \<and>
   editMessage flakyTransport (js ''hi'') True flakyAfterEdit = Inr flakyAfterTwo \<and>
   calls flakyAfterTwo = calls (initialRenderState ()) @
     [EditMessageText (js ''hi'') (Some (js ''Too Many Requests'')),
      EditMessageText (js ''hi'') (Some (js ''Too Many Requests''))]"
  by code_simp

text \<open>
  C5, as amended. An edit whose text equals the last text the transport accepted makes
  no transport call, forced or not. Two calls in a row with the same text make at most
  one transport edit, provided the transport did not refuse the edit of the first
  call. A refusal that says "not modified" is swallowed without a warning.
\<close>

theorem same_text_twice:
  "(newText = lastEditedText s \<longrightarrow>
      editMessage tr newText force s = Inr (s\<lparr>tworld := snd (clock tr (tworld s))\<rparr>)) \<and>
   (editMessage tr newText f1 s = Inr s1 \<and> editMessage tr newText f2 s1 = Inr s2 \<and>
    (\<forall>shown msg. calls s1 \<noteq> calls s @ [EditMessageText shown (Some msg)]) \<longrightarrow>
      calls s2 = calls s \<or>
      (\<exists>outcome. calls s2 = calls s @ [EditMessageText (shownText newText) outcome])) \<and>
   (\<exists>s'. editMessage tr newText force s = Inr s' \<and>
      (\<forall>shown msg. calls s' = calls s @ [EditMessageText shown (Some msg)] \<and>
                    str_includes msg (js ''not modified'') \<longrightarrow> warnings s' = warnings s))"
proof (intro conjI impI)
  assume "newText = lastEditedText s"
  then have "\<not> gateOpen tr newText force s" by (simp add: gateOpen_def)
  then show "editMessage tr newText force s = Inr (s\<lparr>tworld := snd (clock tr (tworld s))\<rparr>)"
    by (rule editMessage_closed)
next
  assume a: "editMessage tr newText f1 s = Inr s1 \<and> editMessage tr newText f2 s1 = Inr s2 \<and>
    (\<forall>shown msg. calls s1 \<noteq> calls s @ [EditMessageText shown (Some msg)])"
  then have e1: "editMessage tr newText f1 s = Inr s1" and e2: "editMessage tr newText f2 s1 = Inr s2"
    and nr: "\<forall>shown msg. calls s1 \<noteq> calls s @ [EditMessageText shown (Some msg)]" by blast+
  from editMessage_shape[OF e1] nr
  have first: "(calls s1 = calls s \<and> lastEditedText s1 = lastEditedText s) \<or>
      (calls s1 = calls s @ [EditMessageText (shownText newText) None] \<and> lastEditedText s1 = newText)"
    by blast
  from editMessage_shape[OF e2]
  have second: "(calls s2 = calls s1) \<or>
      (\<exists>outcome. calls s2 = calls s1 @ [EditMessageText (shownText newText) outcome] \<and>
         newText \<noteq> lastEditedText s1)"
    by blast
  from first second
  show "calls s2 = calls s \<or> (\<exists>outcome. calls s2 = calls s @ [EditMessageText (shownText newText) outcome])"
    by (elim disjE conjE exE) auto
next
  from editMessage_outcome[of tr newText force s]
  show "\<exists>s'. editMessage tr newText force s = Inr s' \<and>
      (\<forall>shown msg. calls s' = calls s @ [EditMessageText shown (Some msg)] \<and>
                    str_includes msg (js ''not modified'') \<longrightarrow> warnings s' = warnings s)"
    by (elim exE conjE) (rule exI, auto)
qed

lemma steady_hi: "editMessage steadyTransport (js ''hi'') True (initialRenderState ()) = Inr saidHi"
  by code_simp

lemma steady_hi_again: "editMessage steadyTransport (js ''hi'') True saidHi = Inr saidHi"
  by code_simp

lemma dots_refused:
  "editMessage unchangedTransport (js ''...'') True (initialRenderState ()) = Inr dotsRefused"
  by code_simp

lemma says_not_modified: "str_includes (js ''Bad Request: message is not modified'') (js ''not modified'')"
  by code_simp

theorem same_text_twice_witness:
  "js ''hi'' = lastEditedText saidHi \<and>
   editMessage steadyTransport (js ''hi'') False saidHi =
     Inr (saidHi\<lparr>tworld := snd (clock steadyTransport (tworld saidHi))\<rparr>) \<and>
   editMessage steadyTransport (js ''hi'') True (initialRenderState ()) = Inr saidHi \<and>
   editMessage steadyTransport (js ''hi'') True saidHi = Inr saidHi \<and>
   (\<forall>shown msg. calls saidHi \<noteq> calls (initialRenderState ()) @ [EditMessageText shown (Some msg)]) \<and>
   (\<exists>outcome. calls saidHi =
      calls (initialRenderState ()) @ [EditMessageText (shownText (js ''hi'')) outcome]) \<and>
   editMessage unchangedTransport (js ''...'') True (initialRenderState ()) = Inr dotsRefused \<and>
   calls dotsRefused = calls (initialRenderState ()) @
     [EditMessageText (js ''...'') (Some (js ''Bad Request: message is not modified''))] \<and>
   str_includes (js ''Bad Request: message is not modified'') (js ''not modified'') \<and>
   warnings dotsRefused = warnings (initialRenderState ())"
proof -
  have a: "js ''hi'' = lastEditedText saidHi" by (simp add: saidHi_def)
  have nr: "\<forall>shown msg. calls saidHi \<noteq> calls (initialRenderState ()) @ [EditMessageText shown (Some msg)]"
    by (simp add: saidHi_def initialRenderState_def)
  have ne: "calls saidHi \<noteq> calls (initialRenderState ())"
    by (simp add: saidHi_def initialRenderState_def)
  have c: "calls dotsRefused = calls (initialRenderState ()) @
     [EditMessageText (js ''...'') (Some (js ''Bad Request: message is not modified''))]"
    by (simp add: dotsRefused_def initialRenderState_def)
  from same_text_twice[of "js ''hi''" saidHi steadyTransport False]
  have 1: "editMessage steadyTransport (js ''hi'') False saidHi =
     Inr (saidHi\<lparr>tworld := snd (clock steadyTransport (tworld saidHi))\<rparr>)"
    using a by blast
  from same_text_twice[of "js ''hi''" "initialRenderState ()" steadyTransport True True saidHi True saidHi]
  have 2: "\<exists>outcome. calls saidHi =
      calls (initialRenderState ()) @ [EditMessageText (shownText (js ''hi'')) outcome]"
    using steady_hi steady_hi_again nr ne by blast
  from same_text_twice[of "js ''...''" "initialRenderState ()" unchangedTransport True]
  have 3: "warnings dotsRefused = warnings (initialRenderState ())"
    using dots_refused c says_not_modified by auto
  show ?thesis using a 1 2 3 steady_hi steady_hi_again nr dots_refused c says_not_modified
    by (intro conjI)
qed




lemma held_back:
  "processEvents steadyTransport [TextDelta t30, TextDelta t36] shownAll = Inr heldBack"
  by code_simp



end
